theory Spec2Isabelle
  imports Main "HOL-Library.Word"
begin

section \<open>The user manager of uhub (src/usermanager.c)\<close>

text \<open>
  A shallow embedding of \<^verbatim>\<open>usermanager.c\<close>: the registry of the users of a hub
  (\<^verbatim>\<open>struct user_manager\<close>), the statistics sampler, the user list and quit
  broadcasts, and start-up and shutdown. Every C function of the file is a HOL function
  of the same name that takes the program state and returns the new one.

  \<^verbatim>\<open>usermanager.c\<close> includes \<^verbatim>\<open>uhub.h\<close>, which is not among the sources. What
  the file needs from it (types, the \<^verbatim>\<open>MAX\<close> macro, the linked list, the routing and
  message primitives) is either a parameter of the function that uses it, or a definition
  marked \<open>Modelled from the spec\<close>.
\<close>

subsection \<open>Machine integers\<close>

text \<open>
  The integer types of the fields are declared in \<^verbatim>\<open>uhub.h\<close>, which is not among
  the sources. \<^verbatim>\<open>count\<close> and \<^verbatim>\<open>count_peak\<close> are printed with \<^verbatim>\<open>%zu\<close>, so
  they are \<^verbatim>\<open>size_t\<close>; the byte counters and the shared totals are \<^verbatim>\<open>size_t\<close>
  or \<^verbatim>\<open>uint64_t\<close>. Both are taken as 64-bit unsigned integers (an LP64 platform),
  and \<^verbatim>\<open>sid_t\<close> as the 32-bit unsigned integer that holds an ADC session identifier.
  Arithmetic on them wraps around, as unsigned arithmetic in C does.
\<close>

type_synonym size_t = "64 word"
type_synonym uint64_t = "64 word"
type_synonym sid_t = "32 word"

text \<open>
  A C \<^verbatim>\<open>int\<close> is 32 bits in two's complement: the bits are a \<open>32 word\<close>, and
  \<open>sint\<close> reads its value. \<open>int_to_size_t\<close> is the conversion of an \<^verbatim>\<open>int\<close> to
  \<^verbatim>\<open>size_t\<close> that C makes when the two meet in an arithmetic operation: the value
  modulo \<open>2 ^ 64\<close>.
\<close>

type_synonym c_int = "32 word"

definition int_to_size_t :: "c_int \<Rightarrow> size_t" where
  "int_to_size_t i = word_of_int (sint i)"

text \<open>
  A \<^verbatim>\<open>struct user*\<close> that is dereferenced is an address; a pointer that may be
  \<^verbatim>\<open>NULL\<close> is a \<open>user_ptr option\<close>, \<open>None\<close> being \<^verbatim>\<open>NULL\<close>.
\<close>

type_synonym user_ptr = nat

subsection \<open>Data\<close>

text \<open>
  Modelled from the spec: the enumerations of \<^verbatim>\<open>uhub.h\<close> are not among the
  sources. \<^verbatim>\<open>usermanager.c\<close> names \<^verbatim>\<open>cred_none\<close>, \<^verbatim>\<open>quit_banned\<close>,
  \<^verbatim>\<open>quit_kicked\<close> and \<^verbatim>\<open>flag_user_list\<close>; the other values of each
  enumeration (the other trust levels, the other quit reasons, among them the normal
  one, and the other flags) are numbered.
\<close>

datatype user_credentials = cred_none | cred_other nat

datatype user_quit_reason = quit_banned | quit_kicked | quit_other nat

datatype user_flags = flag_user_list | flag_other nat

text \<open>
  Modelled from the spec: \<^verbatim>\<open>struct adc_message\<close> and its builder (construct, append
  an argument, release) are not among the sources. A message is its command code and the
  arguments appended to it, in order.
\<close>

record adc_message =
  cmd :: nat
  arguments :: "string list"

text \<open>
  Modelled from the spec: \<^verbatim>\<open>struct user\<close> is declared in \<^verbatim>\<open>uhub.h\<close>. The
  record has the fields \<^verbatim>\<open>usermanager.c\<close> reads or writes: \<^verbatim>\<open>id.sid\<close>,
  \<^verbatim>\<open>id.cid\<close>, \<^verbatim>\<open>id.nick\<close>, \<^verbatim>\<open>credentials\<close>, \<^verbatim>\<open>limits.shared_size\<close>,
  \<^verbatim>\<open>limits.shared_files\<close>, \<^verbatim>\<open>quit_reason\<close>, \<^verbatim>\<open>send_queue_size\<close>,
  \<^verbatim>\<open>flags\<close> and \<^verbatim>\<open>info\<close>. The strings are the characters before the
  terminating NUL; the flags are the set of the flags that are set. \<open>logged_in\<close> is
  the state that \<^verbatim>\<open>user_is_logged_in\<close> tests.
\<close>

record user =
  id_sid :: sid_t
  id_cid :: string
  id_nick :: string
  credentials :: user_credentials
  logged_in :: bool
  limits_shared_size :: uint64_t
  limits_shared_files :: size_t
  quit_reason :: user_quit_reason
  send_queue_size :: size_t
  flags :: "user_flags set"
  info :: adc_message

text \<open>
  \<^verbatim>\<open>struct user_manager\<close>. \<open>list_users\<close> is the field \<^verbatim>\<open>list\<close>: the linked
  list of the users, first appended first.
\<close>

record user_manager =
  count :: size_t
  count_peak :: size_t
  free_sid :: sid_t
  shared_size :: uint64_t
  shared_files :: uint64_t
  list_users :: "user_ptr list"

text \<open>\<^verbatim>\<open>struct hub_stats\<close> (the field \<^verbatim>\<open>stats\<close> of the hub).\<close>

record hub_stats =
  net_tx :: size_t
  net_rx :: size_t
  net_tx_peak :: size_t
  net_rx_peak :: size_t
  net_tx_total :: size_t
  net_rx_total :: size_t

text \<open>\<^verbatim>\<open>struct net_statistics\<close>: the byte counters of the network layer.\<close>

record net_statistics =
  tx :: size_t
  rx :: size_t

text \<open>
  The calls \<^verbatim>\<open>usermanager.c\<close> makes to functions of other files that act outside the
  state below (the event loop, the routing layer, the allocator). Each call is recorded
  with its arguments, in the order the calls are made: \<open>call_user_destroy\<close> with the
  user object as it is when it is destroyed, \<open>call_route_to_user\<close> with the value the
  call returned.
\<close>

datatype call =
    call_evtimer_add int
  | call_event_del
  | call_user_destroy user_ptr user
  | call_list_destroy
  | call_hub_free
  | call_route_to_user user_ptr adc_message int
  | call_route_to_all adc_message
  | call_adc_msg_free adc_message

text \<open>
  The program state: the hub (\<^verbatim>\<open>hub->users\<close> and \<^verbatim>\<open>hub->stats\<close>; a user's
  \<^verbatim>\<open>hub\<close> field points to this hub), the user objects by address, the two counter
  sets of the network layer that \<^verbatim>\<open>net_stats_get\<close> hands out, and the calls made so
  far.
\<close>

record world =
  users :: user_manager
  stats :: hub_stats
  mem :: "user_ptr \<Rightarrow> user"
  net_stats_intermediate :: net_statistics
  net_stats_total :: net_statistics
  calls :: "call list"

subsection \<open>What \<^verbatim>\<open>uhub.h\<close> provides\<close>

text \<open>
  Modelled from the spec: the macro \<^verbatim>\<open>MAX\<close> is not among the sources; the spec
  describes its use as raising a peak to the maximum of two values. It is the usual
  \<^verbatim>\<open>((a) > (b) ? (a) : (b))\<close>.
\<close>

definition MAX_macro :: "'a::linorder \<Rightarrow> 'a \<Rightarrow> 'a" where
  "MAX_macro a b = (if a > b then a else b)"

text \<open>
  Modelled from the spec: the linked list (\<^verbatim>\<open>list_create\<close>, \<^verbatim>\<open>list_append\<close>,
  \<^verbatim>\<open>list_remove\<close>, \<^verbatim>\<open>list_clear\<close>) is not among the sources. The spec describes
  the membership collection as insertion-ordered, removal as a no-op on an absent
  session, and shutdown as visiting every session still registered. Appending adds at
  the end; removing takes out the first entry equal to the pointer, if there is one.
\<close>

definition list_append :: "user_ptr list \<Rightarrow> user_ptr \<Rightarrow> user_ptr list" where
  "list_append l p = l @ [p]"

definition list_remove :: "user_ptr list \<Rightarrow> user_ptr \<Rightarrow> user_ptr list" where
  "list_remove l p = remove1 p l"

subsection \<open>Initialisation\<close>

text \<open>
  \<^verbatim>\<open>user_manager_init\<close>. \<^verbatim>\<open>hub_malloc_zero\<close> gives a zeroed
  \<^verbatim>\<open>struct user_manager\<close>; \<open>list_create_ok\<close> says whether \<^verbatim>\<open>list_create\<close>
  returned a list. If it did not, the function calls \<^verbatim>\<open>list_destroy\<close> (on the
  \<^verbatim>\<open>NULL\<close> it got) and returns \<open>-1\<close> before it assigns \<^verbatim>\<open>hub->users\<close>: the
  registry of the hub is as it was. Otherwise it stores the registry and arms the timer
  (\<^verbatim>\<open>evtimer_set\<close> and \<^verbatim>\<open>evtimer_add\<close>, recorded as one call with the
  interval). \<open>TIMEOUT_STATS\<close> is the value of the macro of that name.
\<close>

definition user_manager_zero :: user_manager where
  "user_manager_zero =
     \<lparr>count = 0, count_peak = 0, free_sid = 0, shared_size = 0, shared_files = 0,
      list_users = []\<rparr>"

definition user_manager_init :: "int \<Rightarrow> bool \<Rightarrow> world \<Rightarrow> int \<times> world" where
  "user_manager_init TIMEOUT_STATS list_create_ok hub =
     (let users0 = user_manager_zero;
          users1 = users0\<lparr>list_users := []\<rparr>;
          users2 = users1\<lparr>free_sid := 1\<rparr>
      in if \<not> list_create_ok then (- 1, hub\<lparr>calls := calls hub @ [call_list_destroy]\<rparr>)
         else (0, hub\<lparr>users := users2,
                       calls := calls hub @ [call_evtimer_add TIMEOUT_STATS]\<rparr>))"

subsection \<open>Adding and removing users\<close>

text \<open>\<^verbatim>\<open>user_manager_add\<close>, statement by statement.\<close>

definition user_manager_add :: "user_ptr \<Rightarrow> world \<Rightarrow> world" where
  "user_manager_add user w =
     (let um0 = users w;
          um1 = um0\<lparr>list_users := list_append (list_users um0) user\<rparr>;
          um2 = um1\<lparr>count := count um1 + 1\<rparr>;
          um3 = um2\<lparr>count_peak := MAX_macro (count um2) (count_peak um2)\<rparr>;
          um4 = um3\<lparr>shared_size := shared_size um3 + limits_shared_size (mem w user)\<rparr>;
          um5 = um4\<lparr>shared_files := shared_files um4 + limits_shared_files (mem w user)\<rparr>
      in w\<lparr>users := um5\<rparr>)"

text \<open>\<^verbatim>\<open>user_manager_remove\<close>, statement by statement.\<close>

definition user_manager_remove :: "user_ptr \<Rightarrow> world \<Rightarrow> world" where
  "user_manager_remove user w =
     (let um0 = users w;
          um1 = um0\<lparr>list_users := list_remove (list_users um0) user\<rparr>;
          um2 = um1\<lparr>count := count um1 - 1\<rparr>;
          um3 = um2\<lparr>shared_size := shared_size um2 - limits_shared_size (mem w user)\<rparr>;
          um4 = um3\<lparr>shared_files := shared_files um3 - limits_shared_files (mem w user)\<rparr>
      in w\<lparr>users := um4\<rparr>)"

text \<open>
  Sequences of calls of the two functions. \<open>run_ops\<close> makes the calls in order;
  \<open>removes_registered\<close> says that every removal is of a user that is in the list when
  it is removed; \<open>counts_seen\<close> lists the values \<^verbatim>\<open>count\<close> takes, from the state
  the sequence starts in to the state it ends in.
\<close>

datatype op = Add user_ptr | Remove user_ptr

fun apply_op :: "op \<Rightarrow> world \<Rightarrow> world" where
  "apply_op (Add p) w = user_manager_add p w"
| "apply_op (Remove p) w = user_manager_remove p w"

fun run_ops :: "op list \<Rightarrow> world \<Rightarrow> world" where
  "run_ops [] w = w"
| "run_ops (x # xs) w = run_ops xs (apply_op x w)"

fun removes_registered :: "op list \<Rightarrow> world \<Rightarrow> bool" where
  "removes_registered [] w = True"
| "removes_registered (Add p # xs) w = removes_registered xs (user_manager_add p w)"
| "removes_registered (Remove p # xs) w =
     (p \<in> set (list_users (users w)) \<and> removes_registered xs (user_manager_remove p w))"

fun counts_seen :: "op list \<Rightarrow> world \<Rightarrow> size_t list" where
  "counts_seen [] w = [count (users w)]"
| "counts_seen (x # xs) w = count (users w) # counts_seen xs (apply_op x w)"

subsection \<open>Looking users up\<close>







subsection \<open>Allocating session identifiers\<close>

text \<open>
  \<^verbatim>\<open>user_manager_get_free_sid\<close>: the body under \<^verbatim>\<open>#if 0\<close> is not compiled; what
  is left returns \<^verbatim>\<open>free_sid\<close> and increments it afterwards.
\<close>

definition user_manager_get_free_sid :: "world \<Rightarrow> sid_t \<times> world" where
  "user_manager_get_free_sid hub =
     (free_sid (users hub), hub\<lparr>users := (users hub)\<lparr>free_sid := free_sid (users hub) + 1\<rparr>\<rparr>)"

text \<open>\<open>n\<close> calls in a row: the values returned, in order, and the state after the last.\<close>

fun get_free_sids :: "nat \<Rightarrow> world \<Rightarrow> sid_t list \<times> world" where
  "get_free_sids 0 hub = ([], hub)"
| "get_free_sids (Suc n) hub =
     (case user_manager_get_free_sid hub of
        (sid, hub1) \<Rightarrow> (case get_free_sids n hub1 of (sids, hub2) \<Rightarrow> (sid # sids, hub2)))"

subsection \<open>Statistics\<close>

text \<open>
  Modelled from the spec: the network layer's \<^verbatim>\<open>net_stats_get\<close> and
  \<^verbatim>\<open>net_stats_reset\<close> are not among the sources. The first hands out the counters of
  the current interval and the cumulative ones; the second sets the counters of the
  interval to zero.
\<close>

definition net_stats_get :: "world \<Rightarrow> net_statistics \<times> net_statistics" where
  "net_stats_get w = (net_stats_intermediate w, net_stats_total w)"

definition net_stats_reset :: "world \<Rightarrow> world" where
  "net_stats_reset w = w\<lparr>net_stats_intermediate := \<lparr>tx = 0, rx = 0\<rparr>\<rparr>"

text \<open>
  \<^verbatim>\<open>user_manager_update_stats\<close>. \<open>TIMEOUT_STATS\<close> is the value of the macro of that
  name. \<^verbatim>\<open>const int factor = TIMEOUT_STATS\<close> narrows it to an \<^verbatim>\<open>int\<close> (a value
  out of the range of \<^verbatim>\<open>int\<close> is reduced modulo \<open>2 ^ 32\<close>, as the usual compilers
  do). In \<^verbatim>\<open>intermediate->tx / factor\<close> the \<^verbatim>\<open>int\<close> is converted to the
  unsigned type of the counter and the division is unsigned. Dividing by zero is
  undefined in C: the result is \<open>None\<close>.
\<close>

definition user_manager_update_stats :: "int \<Rightarrow> world \<Rightarrow> world option" where
  "user_manager_update_stats TIMEOUT_STATS hub =
     (let factor = (word_of_int TIMEOUT_STATS :: c_int);
          (intermediate, total) = net_stats_get hub
      in if factor = 0 then None
         else
           let st0 = stats hub;
               st1 = st0\<lparr>net_tx := tx intermediate div int_to_size_t factor\<rparr>;
               st2 = st1\<lparr>net_rx := rx intermediate div int_to_size_t factor\<rparr>;
               st3 = st2\<lparr>net_tx_peak := MAX_macro (net_tx st2) (net_tx_peak st2)\<rparr>;
               st4 = st3\<lparr>net_tx_peak := MAX_macro (net_rx st3) (net_rx_peak st3)\<rparr>;
               st5 = st4\<lparr>net_tx_total := tx total\<rparr>;
               st6 = st5\<lparr>net_rx_total := rx total\<rparr>
           in Some (net_stats_reset (hub\<lparr>stats := st6\<rparr>)))"

text \<open>
  \<^verbatim>\<open>timer_statistics\<close>, the timer's callback: it samples and arms the timer again.
  (\<^verbatim>\<open>user_manager_print_stats\<close> only writes a line to the log and is left out.)
\<close>

definition timer_statistics :: "int \<Rightarrow> world \<Rightarrow> world option" where
  "timer_statistics TIMEOUT_STATS hub =
     (case user_manager_update_stats TIMEOUT_STATS hub of
        None \<Rightarrow> None
      | Some hub1 \<Rightarrow> Some (hub1\<lparr>calls := calls hub1 @ [call_evtimer_add TIMEOUT_STATS]\<rparr>))"

subsection \<open>Sending the user list\<close>

text \<open>
  Modelled from the spec: \<^verbatim>\<open>user_flag_set\<close>, \<^verbatim>\<open>user_flag_unset\<close> and
  \<^verbatim>\<open>user_is_logged_in\<close> are not among the sources. The first two set and clear a
  flag of a user; the third tests whether the user is in the logged-in state.
\<close>

definition user_flag_set :: "user_ptr \<Rightarrow> user_flags \<Rightarrow> world \<Rightarrow> world" where
  "user_flag_set user flag w =
     w\<lparr>mem := (mem w)(user := (mem w user)\<lparr>flags := insert flag (flags (mem w user))\<rparr>)\<rparr>"

definition user_flag_unset :: "user_ptr \<Rightarrow> user_flags \<Rightarrow> world \<Rightarrow> world" where
  "user_flag_unset user flag w =
     w\<lparr>mem := (mem w)(user := (mem w user)\<lparr>flags := flags (mem w user) - {flag}\<rparr>)\<rparr>"

definition user_is_logged_in :: "user \<Rightarrow> bool" where
  "user_is_logged_in u = logged_in u"

text \<open>
  Modelled from the spec: \<^verbatim>\<open>route_to_user\<close> is not among the sources. It attempts
  the delivery of a message to one user and returns nonzero on success; a failure says
  that the user's outbound queue is saturated. What it returns, and the size of the
  user's send queue afterwards, are left open: the parameter \<open>rt\<close> gives both, from the
  calls made so far, the user object and the message. The call is recorded.
\<close>

type_synonym route_fn = "call list \<Rightarrow> user \<Rightarrow> adc_message \<Rightarrow> int \<times> size_t"

definition route_to_user :: "route_fn \<Rightarrow> user_ptr \<Rightarrow> adc_message \<Rightarrow> world \<Rightarrow> int \<times> world" where
  "route_to_user rt user msg w =
     (case rt (calls w) (mem w user) msg of
        (ret, queued) \<Rightarrow>
          (ret, w\<lparr>mem := (mem w)(user := (mem w user)\<lparr>send_queue_size := queued\<rparr>),
                  calls := calls w @ [call_route_to_user user msg ret]\<rparr>))"

text \<open>
  \<^verbatim>\<open>send_user_list\<close>. The loop takes the entries still to visit and the current
  value of \<^verbatim>\<open>ret\<close>; \<^verbatim>\<open>break\<close> leaves it with the value just assigned.
\<close>

fun send_user_list_loop ::
  "route_fn \<Rightarrow> user_ptr \<Rightarrow> user_ptr list \<Rightarrow> int \<Rightarrow> world \<Rightarrow> int \<times> world" where
  "send_user_list_loop rt target [] ret w = (ret, w)"
| "send_user_list_loop rt target (user # rest) ret w =
     (if user_is_logged_in (mem w user) then
        (case route_to_user rt target (info (mem w user)) w of
           (ret1, w1) \<Rightarrow>
             if ret1 = 0 then (ret1, w1)
             else send_user_list_loop rt target rest ret1 w1)
      else send_user_list_loop rt target rest ret w)"

definition send_user_list :: "route_fn \<Rightarrow> user_ptr \<Rightarrow> world \<Rightarrow> int \<times> world" where
  "send_user_list rt target w =
     (let ret = 1;
          w1 = user_flag_set target flag_user_list w
      in case send_user_list_loop rt target (list_users (users w1)) ret w1 of
           (ret2, w2) \<Rightarrow>
             if send_queue_size (mem w2 target) = 0
             then (ret2, user_flag_unset target flag_user_list w2)
             else (ret2, w2))"

text \<open>
  The \<^verbatim>\<open>route_to_user\<close> calls among a list of calls: the user and the message of
  each (\<open>routed\<close>), and the value each returned (\<open>returned\<close>).
\<close>

fun routed :: "call list \<Rightarrow> (user_ptr \<times> adc_message) list" where
  "routed [] = []"
| "routed (call_route_to_user p m r # cs) = (p, m) # routed cs"
| "routed (c # cs) = routed cs"

fun returned :: "call list \<Rightarrow> int list" where
  "returned [] = []"
| "returned (call_route_to_user p m r # cs) = r # returned cs"
| "returned (c # cs) = returned cs"

text \<open>
  What the loop of \<^verbatim>\<open>send_user_list\<close> has done when it ends, in terms of the calls
  \<open>new\<close> it has made, the list \<open>l\<close> it went through, the value \<open>ret0\<close> of
  \<^verbatim>\<open>ret\<close> and the state \<open>w1\<close> it started with, and the value \<open>ret\<close> it ends
  with: the calls are \<^verbatim>\<open>route_to_user\<close> calls, one for each logged-in user of the
  list in order, up to and including the first that returned 0.
\<close>

definition loop_post ::
  "user_ptr \<Rightarrow> user_ptr list \<Rightarrow> int \<Rightarrow> world \<Rightarrow> int \<Rightarrow> call list \<Rightarrow> bool" where
  "loop_post target l ret0 w1 ret new =
     (let cand = filter (\<lambda>p. logged_in (mem w1 p)) l in
      length (routed new) = length new \<and> length (returned new) = length new \<and>
      length new \<le> length cand \<and>
      routed new = take (length new) (map (\<lambda>p. (target, info (mem w1 p))) cand) \<and>
      (\<forall>r \<in> set (butlast (returned new)). r \<noteq> 0) \<and>
      (0 \<in> set (returned new) \<longrightarrow> ret = 0) \<and>
      (0 \<notin> set (returned new) \<longrightarrow> length new = length cand \<and> ret = last (ret0 # returned new)))"

subsection \<open>Announcing a user that leaves\<close>

text \<open>
  Modelled from the spec: the message builder (\<^verbatim>\<open>adc_msg_construct\<close>,
  \<^verbatim>\<open>adc_msg_add_argument\<close>, \<^verbatim>\<open>adc_msg_free\<close>) and \<^verbatim>\<open>route_to_all\<close> are not
  among the sources. Constructing gives a message of the command with no argument yet
  (the second argument of \<^verbatim>\<open>adc_msg_construct\<close> is a size); adding an argument
  appends it; releasing the message and broadcasting it to all users are recorded as
  calls.
\<close>

definition adc_msg_construct :: "nat \<Rightarrow> nat \<Rightarrow> adc_message" where
  "adc_msg_construct fourcc sz = \<lparr>cmd = fourcc, arguments = []\<rparr>"

definition adc_msg_add_argument :: "adc_message \<Rightarrow> string \<Rightarrow> adc_message" where
  "adc_msg_add_argument command str = command\<lparr>arguments := arguments command @ [str]\<rparr>"

definition adc_msg_free :: "adc_message \<Rightarrow> world \<Rightarrow> world" where
  "adc_msg_free command w = w\<lparr>calls := calls w @ [call_adc_msg_free command]\<rparr>"

definition route_to_all :: "adc_message \<Rightarrow> world \<Rightarrow> world" where
  "route_to_all command hub = hub\<lparr>calls := calls hub @ [call_route_to_all command]\<rparr>"

text \<open>
  \<^verbatim>\<open>send_quit_message\<close>. The constants \<^verbatim>\<open>ADC_CMD_IQUI\<close> and
  \<^verbatim>\<open>ADC_QUI_FLAG_DISCONNECT\<close> and the function \<^verbatim>\<open>sid_to_string\<close> are not among
  the sources: they are parameters.
\<close>

definition send_quit_message ::
  "nat \<Rightarrow> string \<Rightarrow> (sid_t \<Rightarrow> string) \<Rightarrow> user_ptr \<Rightarrow> world \<Rightarrow> world" where
  "send_quit_message ADC_CMD_IQUI ADC_QUI_FLAG_DISCONNECT sid_to_string leaving w =
     (let command0 = adc_msg_construct ADC_CMD_IQUI 6;
          command1 = adc_msg_add_argument command0 (sid_to_string (id_sid (mem w leaving)));
          command2 =
            (if quit_reason (mem w leaving) = quit_banned \<or>
                quit_reason (mem w leaving) = quit_kicked
             then adc_msg_add_argument command1 ADC_QUI_FLAG_DISCONNECT
             else command1);
          w1 = route_to_all command2 w
      in adc_msg_free command2 w1)"

subsection \<open>Shutdown\<close>

text \<open>
  Modelled from the spec: \<^verbatim>\<open>event_del\<close>, \<^verbatim>\<open>user_destroy\<close>, \<^verbatim>\<open>list_clear\<close>,
  \<^verbatim>\<open>list_destroy\<close> and \<^verbatim>\<open>hub_free\<close> are not among the sources. Cancelling the
  timer, destroying a user, and releasing the list and the registry are recorded as
  calls. \<^verbatim>\<open>list_clear\<close> calls the handler on every entry, first to last, and leaves
  the list empty.
\<close>

definition event_del :: "world \<Rightarrow> world" where
  "event_del hub = hub\<lparr>calls := calls hub @ [call_event_del]\<rparr>"

definition user_destroy :: "user_ptr \<Rightarrow> world \<Rightarrow> world" where
  "user_destroy u w = w\<lparr>calls := calls w @ [call_user_destroy u (mem w u)]\<rparr>"

fun list_clear_loop ::
  "(user_ptr option \<Rightarrow> world \<Rightarrow> world) \<Rightarrow> user_ptr list \<Rightarrow> world \<Rightarrow> world" where
  "list_clear_loop free_handle [] w = w"
| "list_clear_loop free_handle (p # rest) w =
     list_clear_loop free_handle rest (free_handle (Some p) w)"

definition list_clear :: "(user_ptr option \<Rightarrow> world \<Rightarrow> world) \<Rightarrow> world \<Rightarrow> world" where
  "list_clear free_handle w =
     (let w1 = list_clear_loop free_handle (list_users (users w)) w
      in w1\<lparr>users := (users w1)\<lparr>list_users := []\<rparr>\<rparr>)"

definition list_destroy :: "world \<Rightarrow> world" where
  "list_destroy w = w\<lparr>calls := calls w @ [call_list_destroy]\<rparr>"

definition hub_free :: "world \<Rightarrow> world" where
  "hub_free w = w\<lparr>calls := calls w @ [call_hub_free]\<rparr>"

text \<open>\<^verbatim>\<open>clear_user_list_callback\<close>: nothing is done for \<^verbatim>\<open>NULL\<close>.\<close>

definition clear_user_list_callback :: "user_ptr option \<Rightarrow> world \<Rightarrow> world" where
  "clear_user_list_callback ptr w =
     (case ptr of
        None \<Rightarrow> w
      | Some u \<Rightarrow>
          user_destroy u (w\<lparr>mem := (mem w)(u := (mem w u)\<lparr>credentials := cred_none\<rparr>)\<rparr>))"

text \<open>\<^verbatim>\<open>user_manager_shutdown\<close>.\<close>

definition user_manager_shutdown :: "world \<Rightarrow> world" where
  "user_manager_shutdown hub =
     (let w1 = event_del hub;
          w2 = list_clear clear_user_list_callback w1;
          w3 = list_destroy w2
      in hub_free w3)"

text \<open>The users \<^verbatim>\<open>user_destroy\<close> was called on, in the order of the calls.\<close>

fun destroyed :: "call list \<Rightarrow> user_ptr list" where
  "destroyed [] = []"
| "destroyed (call_user_destroy p u # cs) = p # destroyed cs"
| "destroyed (c # cs) = destroyed cs"

subsection \<open>The invariant of the registry\<close>

text \<open>
  What \<^verbatim>\<open>user_manager_add\<close> and \<^verbatim>\<open>user_manager_remove\<close> maintain: the count
  is the length of the list (as a \<^verbatim>\<open>size_t\<close>), the peak is at least the count of
  every list that is not longer than the present one, and each total is the sum over the
  list.
\<close>

definition registry_inv :: "world \<Rightarrow> bool" where
  "registry_inv w =
     (let um = users w; l = list_users um in
      count um = of_nat (length l) \<and>
      (\<forall>k \<le> length l. of_nat k \<le> count_peak um) \<and>
      shared_size um = sum_list (map (\<lambda>p. limits_shared_size (mem w p)) l) \<and>
      shared_files um = sum_list (map (\<lambda>p. limits_shared_files (mem w p)) l))"

subsection \<open>A hub to run the functions on\<close>

text \<open>
  Four users at the addresses 1 to 4 (every other address holds a copy of the fourth),
  and a hub before \<^verbatim>\<open>user_manager_init\<close>, with its fields at zero.
\<close>

definition example_user :: "user_ptr \<Rightarrow> user" where
  "example_user p =
     \<lparr>id_sid = of_nat p,
      id_cid = (if p = 1 then ''CIDA'' else if p = 2 then ''CIDB'' else if p = 3 then ''CIDC'' else ''CIDD''),
      id_nick = (if p = 1 then ''ann'' else if p = 2 then ''bob'' else if p = 3 then ''cyd'' else ''dan''),
      credentials = cred_other 1,
      logged_in = (p \<noteq> 2),
      limits_shared_size = (if p = 1 then 100 else if p = 2 then 20 else 3),
      limits_shared_files = (if p = 1 then 7 else if p = 2 then 5 else 1),
      quit_reason = (if p = 1 then quit_banned else if p = 2 then quit_kicked else quit_other 0),
      send_queue_size = 0,
      flags = {},
      info = \<lparr>cmd = 0, arguments = [if p = 1 then ''ann'' else if p = 2 then ''bob'' else if p = 3 then ''cyd'' else ''dan'']\<rparr>\<rparr>"

text \<open>
  The same users, but the first declares \<open>2 ^ 64 - 1\<close> shared bytes and
  \<open>2 ^ 64 - 1\<close> shared files, the largest values the fields hold; \<open>example_hub_big\<close>
  below is the hub with these users.
\<close>

definition example_user_big :: "user_ptr \<Rightarrow> user" where
  "example_user_big p =
     (if p = 1
      then (example_user 1)\<lparr>limits_shared_size := 18446744073709551615,
                             limits_shared_files := 18446744073709551615\<rparr>
      else example_user p)"

definition example_hub :: world where
  "example_hub =
     \<lparr>users = user_manager_zero,
      stats = \<lparr>net_tx = 0, net_rx = 0, net_tx_peak = 0, net_rx_peak = 0,
               net_tx_total = 0, net_rx_total = 0\<rparr>,
      mem = example_user,
      net_stats_intermediate = \<lparr>tx = 5120, rx = 1024\<rparr>,
      net_stats_total = \<lparr>tx = 5120, rx = 1024\<rparr>,
      calls = []\<rparr>"

definition example_hub_big :: world where
  "example_hub_big = example_hub\<lparr>mem := example_user_big\<rparr>"

section \<open>Properties\<close>

text \<open>The definitions that running a function on the example hub unfolds.\<close>

lemmas run_defs =
  user_manager_init_def user_manager_zero_def user_manager_add_def user_manager_remove_def
  list_append_def list_remove_def MAX_macro_def example_hub_def example_user_def Let_def

subsection \<open>Counts and totals under additions and removals\<close>

lemma MAX_macro_max: "MAX_macro a b = max a b"
  by (auto simp: MAX_macro_def max_def)

lemma mem_user_manager_add: "mem (user_manager_add p w) = mem w"
  by (simp add: user_manager_add_def Let_def)

lemma mem_user_manager_remove: "mem (user_manager_remove p w) = mem w"
  by (simp add: user_manager_remove_def Let_def)

lemma mem_run_ops: "mem (run_ops ops w) = mem w"
proof (induction ops arbitrary: w)
  case Nil
  show ?case by simp
next
  case (Cons x xs)
  show ?case
    by (cases x) (simp_all add: Cons.IH mem_user_manager_add mem_user_manager_remove)
qed

lemma registry_inv_add:
  assumes "registry_inv w"
  shows "registry_inv (user_manager_add p w)"
proof -
  let ?um = "users w"
  have c: "count ?um = of_nat (length (list_users ?um))"
    and pk: "\<forall>k \<le> length (list_users ?um). of_nat k \<le> count_peak ?um"
    using assms by (simp_all add: registry_inv_def Let_def)
  have "\<forall>k \<le> Suc (length (list_users ?um)).
          (of_nat k :: size_t) \<le> max (count ?um + 1) (count_peak ?um)"
  proof (intro allI impI)
    fix k assume "k \<le> Suc (length (list_users ?um))"
    then consider "k \<le> length (list_users ?um)" | "k = Suc (length (list_users ?um))"
      by linarith
    then show "(of_nat k :: size_t) \<le> max (count ?um + 1) (count_peak ?um)"
    proof cases
      case 1
      with pk show ?thesis by (simp add: le_max_iff_disj)
    next
      case 2
      then show ?thesis by (simp add: c add.commute)
    qed
  qed
  then show ?thesis
    using assms
    by (simp add: registry_inv_def user_manager_add_def Let_def list_append_def MAX_macro_max)
qed

lemma registry_inv_remove:
  assumes "registry_inv w" and "p \<in> set (list_users (users w))"
  shows "registry_inv (user_manager_remove p w)"
proof -
  let ?l = "list_users (users w)"
  have pos: "1 \<le> length ?l"
    using assms(2) by (cases ?l) auto
  have len: "length (remove1 p ?l) = length ?l - 1"
    using assms(2) by (simp add: length_remove1)
  have cnt: "(of_nat (length ?l - Suc 0) :: size_t) = of_nat (length ?l) - 1"
    using pos by (simp add: of_nat_diff)
  have s1: "sum_list (map f (remove1 p ?l)) = sum_list (map f ?l) - (f p :: 64 word)" for f
    using assms(2) by (simp add: sum_list_map_remove1)
  show ?thesis
    using assms(1)
    by (auto simp add: registry_inv_def user_manager_remove_def Let_def list_remove_def
          len cnt s1)
qed

lemma registry_inv_run_ops:
  "registry_inv w \<Longrightarrow> removes_registered ops w \<Longrightarrow> registry_inv (run_ops ops w)"
proof (induction ops arbitrary: w)
  case Nil
  then show ?case by simp
next
  case (Cons x xs)
  then show ?case
    by (cases x) (simp_all add: registry_inv_add registry_inv_remove)
qed

lemma count_le_peak: "registry_inv w \<Longrightarrow> count (users w) \<le> count_peak (users w)"
  by (simp add: registry_inv_def Let_def)

lemma counts_seen_nonempty: "counts_seen ops w \<noteq> []"
  by (cases ops) simp_all

lemma hd_counts_seen: "hd (counts_seen ops w) = count (users w)"
  by (cases ops) simp_all

lemma Max_counts_seen_Cons:
  "Max (set (counts_seen (x # xs) w)) =
   max (count (users w)) (Max (set (counts_seen xs (apply_op x w))))"
  by (simp add: counts_seen_nonempty)

lemma max_step_add:
  fixes c :: "'a::linorder"
  shows "c \<le> pk \<Longrightarrow> c1 \<le> M \<Longrightarrow> max (max c1 pk) M = max pk (max c M)"
  by (auto simp: max_def)

lemma max_step_remove:
  fixes c :: "'a::linorder"
  shows "c \<le> pk \<Longrightarrow> max pk M = max pk (max c M)"
  by (auto simp: max_def)

lemma count_peak_run_ops:
  "registry_inv w \<Longrightarrow> removes_registered ops w \<Longrightarrow>
   count_peak (users (run_ops ops w)) =
   max (count_peak (users w)) (Max (set (counts_seen ops w)))"
proof (induction ops arbitrary: w)
  case Nil
  then show ?case
    using count_le_peak [of w] by (simp add: max_def)
next
  case (Cons x xs)
  have le: "count (users w) \<le> count_peak (users w)"
    using Cons.prems(1) by (rule count_le_peak)
  show ?case
  proof (cases x)
    case (Add p)
    let ?w1 = "user_manager_add p w"
    have inv1: "registry_inv ?w1" using Cons.prems(1) by (rule registry_inv_add)
    have rr: "removes_registered xs ?w1" using Cons.prems(2) Add by simp
    have pk1: "count_peak (users ?w1) = max (count (users ?w1)) (count_peak (users w))"
      by (simp add: user_manager_add_def Let_def MAX_macro_max)
    have hd_in: "count (users ?w1) \<le> Max (set (counts_seen xs ?w1))"
      using hd_counts_seen [of xs ?w1] counts_seen_nonempty [of xs ?w1]
      by (metis List.finite_set Max_ge hd_in_set)
    have "count_peak (users (run_ops xs ?w1)) =
        max (count_peak (users ?w1)) (Max (set (counts_seen xs ?w1)))"
      using inv1 rr by (rule Cons.IH)
    then have "count_peak (users (run_ops xs ?w1)) =
        max (count_peak (users w)) (max (count (users w)) (Max (set (counts_seen xs ?w1))))"
      unfolding pk1 using le hd_in by (simp only: max_step_add)
    then show ?thesis
      unfolding Add Max_counts_seen_Cons by simp
  next
    case (Remove p)
    let ?w1 = "user_manager_remove p w"
    have inv1: "registry_inv ?w1" using Cons.prems Remove by (simp add: registry_inv_remove)
    have rr: "removes_registered xs ?w1" using Cons.prems(2) Remove by simp
    have pk1: "count_peak (users ?w1) = count_peak (users w)"
      by (simp add: user_manager_remove_def Let_def)
    have "count_peak (users (run_ops xs ?w1)) =
        max (count_peak (users ?w1)) (Max (set (counts_seen xs ?w1)))"
      using inv1 rr by (rule Cons.IH)
    then have "count_peak (users (run_ops xs ?w1)) =
        max (count_peak (users w)) (max (count (users w)) (Max (set (counts_seen xs ?w1))))"
      unfolding pk1 using le by (simp only: max_step_remove [symmetric])
    then show ?thesis
      unfolding Remove Max_counts_seen_Cons by simp
  qed
qed

lemma registry_inv_init: "registry_inv (snd (user_manager_init T True hub))"
  by (simp add: registry_inv_def user_manager_init_def user_manager_zero_def Let_def)

lemma count_peak_init: "count_peak (users (snd (user_manager_init T True hub))) = 0"
  by (simp add: user_manager_init_def user_manager_zero_def Let_def)

lemma sum_list_word_of_nat:
  "(sum_list (map f l) :: 'a::len word) = of_nat (sum_list (map (\<lambda>p. unat (f p)) l))"
  by (induction l) simp_all

lemma unat_sum_list_word:
  "unat (sum_list (map f l) :: 'a::len word) =
   sum_list (map (\<lambda>p. unat (f p)) l) mod 2 ^ LENGTH('a)"
  by (simp only: sum_list_word_of_nat [of f l] unat_of_nat)

text \<open>
  Claim C1, as the code has it. Start from the registry that \<^verbatim>\<open>user_manager_init\<close>
  sets up and make any sequence of calls of \<^verbatim>\<open>user_manager_add\<close> and
  \<^verbatim>\<open>user_manager_remove\<close> in which every removal is of a user that is in the list
  at that moment. Afterwards \<^verbatim>\<open>count\<close> is the number of entries of the list modulo
  \<open>2 ^ 64\<close>, \<^verbatim>\<open>count_peak\<close> is the greatest value \<^verbatim>\<open>count\<close> has had from the
  start of the sequence to its end, and \<^verbatim>\<open>shared_size\<close> and \<^verbatim>\<open>shared_files\<close>
  are the sums of \<^verbatim>\<open>limits.shared_size\<close> and \<^verbatim>\<open>limits.shared_files\<close> over the
  entries of the list, modulo \<open>2 ^ 64\<close>: the counters are 64-bit unsigned integers,
  and the additions and subtractions wrap around.
\<close>

theorem add_remove_aggregates:
  assumes "removes_registered ops (snd (user_manager_init T True hub))"
  shows "(let w = run_ops ops (snd (user_manager_init T True hub)); l = list_users (users w) in
          unat (count (users w)) = length l mod 2 ^ 64 \<and>
          count_peak (users w) = Max (set (counts_seen ops (snd (user_manager_init T True hub)))) \<and>
          unat (shared_size (users w)) =
            sum_list (map (\<lambda>p. unat (limits_shared_size (mem w p))) l) mod 2 ^ 64 \<and>
          unat (shared_files (users w)) =
            sum_list (map (\<lambda>p. unat (limits_shared_files (mem w p))) l) mod 2 ^ 64)"
proof -
  let ?init = "snd (user_manager_init T True hub)"
  let ?fin = "run_ops ops ?init"
  let ?l = "list_users (users ?fin)"
  have inv: "registry_inv ?fin"
    using registry_inv_init assms by (rule registry_inv_run_ops)
  have "count_peak (users ?fin) = max (count_peak (users ?init)) (Max (set (counts_seen ops ?init)))"
    using registry_inv_init assms by (rule count_peak_run_ops)
  then have pk: "count_peak (users ?fin) = Max (set (counts_seen ops ?init))"
    by (simp add: count_peak_init)
  have "count (users ?fin) = of_nat (length ?l)"
    using inv by (simp add: registry_inv_def Let_def)
  then have c: "unat (count (users ?fin)) = length ?l mod 2 ^ LENGTH(64)"
    by (simp only: unat_of_nat)
  have "shared_size (users ?fin) = sum_list (map (\<lambda>p. limits_shared_size (mem ?fin p)) ?l)"
    using inv by (simp add: registry_inv_def Let_def)
  then have s1: "unat (shared_size (users ?fin)) =
      sum_list (map (\<lambda>p. unat (limits_shared_size (mem ?fin p))) ?l) mod 2 ^ LENGTH(64)"
    by (simp only: unat_sum_list_word)
  have "shared_files (users ?fin) = sum_list (map (\<lambda>p. limits_shared_files (mem ?fin p)) ?l)"
    using inv by (simp add: registry_inv_def Let_def)
  then have s2: "unat (shared_files (users ?fin)) =
      sum_list (map (\<lambda>p. unat (limits_shared_files (mem ?fin p))) ?l) mod 2 ^ LENGTH(64)"
    by (simp only: unat_sum_list_word)
  show ?thesis
    using c pk s1 s2 by (simp add: Let_def)
qed

theorem add_remove_aggregates_witness:
  "removes_registered [Add 1, Add 2, Remove 1] (snd (user_manager_init 5 True example_hub)) \<and>
   list_users (users (run_ops [Add 1, Add 2, Remove 1]
     (snd (user_manager_init 5 True example_hub)))) = [2] \<and>
   counts_seen [Add 1, Add 2, Remove 1] (snd (user_manager_init 5 True example_hub)) =
     [0, 1, 2, 1] \<and>
   count (users (run_ops [Add 1, Add 2, Remove 1]
     (snd (user_manager_init 5 True example_hub)))) = 1 \<and>
   count_peak (users (run_ops [Add 1, Add 2, Remove 1]
     (snd (user_manager_init 5 True example_hub)))) = 2 \<and>
   shared_size (users (run_ops [Add 1, Add 2, Remove 1]
     (snd (user_manager_init 5 True example_hub)))) = 20 \<and>
   shared_files (users (run_ops [Add 1, Add 2, Remove 1]
     (snd (user_manager_init 5 True example_hub)))) = 5"
  using add_remove_aggregates [of "[Add 1, Add 2, Remove 1]" 5 example_hub]
  by (simp add: run_defs)

text \<open>
  Claim C1, as it is stated, fails for the totals. Register user 1, who declares
  \<open>2 ^ 64 - 1\<close> shared bytes and as many files, and user 2, who declares 20 bytes and
  5 files. The sums over the two registered users are \<open>2 ^ 64 + 19\<close> and
  \<open>2 ^ 64 + 4\<close>; \<^verbatim>\<open>shared_size\<close> is 19 and \<^verbatim>\<open>shared_files\<close> is 4.
\<close>

theorem shared_totals_wrap:
  "removes_registered [Add 1, Add 2] (snd (user_manager_init 5 True example_hub_big)) \<and>
   list_users (users (run_ops [Add 1, Add 2]
     (snd (user_manager_init 5 True example_hub_big)))) = [1, 2] \<and>
   sum_list (map (\<lambda>p. unat (limits_shared_size
       (mem (run_ops [Add 1, Add 2] (snd (user_manager_init 5 True example_hub_big))) p)))
     (list_users (users (run_ops [Add 1, Add 2]
       (snd (user_manager_init 5 True example_hub_big)))))) = 18446744073709551635 \<and>
   unat (shared_size (users (run_ops [Add 1, Add 2]
     (snd (user_manager_init 5 True example_hub_big))))) = 19 \<and>
   sum_list (map (\<lambda>p. unat (limits_shared_files
       (mem (run_ops [Add 1, Add 2] (snd (user_manager_init 5 True example_hub_big))) p)))
     (list_users (users (run_ops [Add 1, Add 2]
       (snd (user_manager_init 5 True example_hub_big)))))) = 18446744073709551620 \<and>
   unat (shared_files (users (run_ops [Add 1, Add 2]
     (snd (user_manager_init 5 True example_hub_big))))) = 4"
  by (simp add: run_defs example_hub_big_def example_user_big_def)

text \<open>
  A list the program can hold has fewer than \<open>2 ^ 64\<close> entries; then \<^verbatim>\<open>count\<close>, read
  as a number, is the number of entries.
\<close>

lemma count_is_length:
  assumes "removes_registered ops (snd (user_manager_init T True hub))"
    and "length (list_users (users (run_ops ops (snd (user_manager_init T True hub))))) < 2 ^ 64"
  shows "unat (count (users (run_ops ops (snd (user_manager_init T True hub))))) =
         length (list_users (users (run_ops ops (snd (user_manager_init T True hub)))))"
proof -
  let ?w = "run_ops ops (snd (user_manager_init T True hub))"
  have "registry_inv ?w"
    using registry_inv_init assms(1) by (rule registry_inv_run_ops)
  then have "count (users ?w) = of_nat (length (list_users (users ?w)))"
    by (simp add: registry_inv_def Let_def)
  then have "unat (count (users ?w)) = length (list_users (users ?w)) mod 2 ^ LENGTH(64)"
    by (simp only: unat_of_nat)
  then show ?thesis
    using assms(2) by simp
qed

subsection \<open>Removing a user that is not registered\<close>

text \<open>
  Claim C4, as the code has it. \<^verbatim>\<open>user_manager_remove\<close> on a user that is not in
  the list leaves the list and \<^verbatim>\<open>count_peak\<close> as they are, and still decrements
  \<^verbatim>\<open>count\<close> and subtracts the user's \<^verbatim>\<open>limits.shared_size\<close> and
  \<^verbatim>\<open>limits.shared_files\<close> from the totals: the three statements after
  \<^verbatim>\<open>list_remove\<close> are not guarded.
\<close>

theorem remove_absent_effect:
  assumes "user \<notin> set (list_users (users w))"
  shows "list_users (users (user_manager_remove user w)) = list_users (users w) \<and>
         count (users (user_manager_remove user w)) = count (users w) - 1 \<and>
         count_peak (users (user_manager_remove user w)) = count_peak (users w) \<and>
         shared_size (users (user_manager_remove user w)) =
           shared_size (users w) - limits_shared_size (mem w user) \<and>
         shared_files (users (user_manager_remove user w)) =
           shared_files (users w) - limits_shared_files (mem w user)"
  using assms
  by (simp add: user_manager_remove_def list_remove_def Let_def remove1_idem)

theorem remove_absent_effect_witness:
  "2 \<notin> set (list_users (users
     (user_manager_add 1 (snd (user_manager_init 5 True example_hub))))) \<and>
   list_users (users (user_manager_remove 2
     (user_manager_add 1 (snd (user_manager_init 5 True example_hub))))) = [1] \<and>
   count (users (user_manager_remove 2
     (user_manager_add 1 (snd (user_manager_init 5 True example_hub))))) = 0 \<and>
   shared_size (users (user_manager_remove 2
     (user_manager_add 1 (snd (user_manager_init 5 True example_hub))))) = 80 \<and>
   shared_files (users (user_manager_remove 2
     (user_manager_add 1 (snd (user_manager_init 5 True example_hub))))) = 2"
  using remove_absent_effect [of 2 "user_manager_add 1 (snd (user_manager_init 5 True example_hub))"]
  by (simp add: run_defs)

text \<open>
  Claim C4, as it is stated, fails. With user 1 registered and user 2 not, removing
  user 2 takes \<^verbatim>\<open>count\<close> from 1 to 0, \<^verbatim>\<open>shared_size\<close> from 100 to 80 and
  \<^verbatim>\<open>shared_files\<close> from 7 to 2.
\<close>

theorem remove_absent_changes_count:
  "2 \<notin> set (list_users (users
     (user_manager_add 1 (snd (user_manager_init 5 True example_hub))))) \<and>
   count (users (user_manager_remove 2
     (user_manager_add 1 (snd (user_manager_init 5 True example_hub))))) \<noteq>
   count (users (user_manager_add 1 (snd (user_manager_init 5 True example_hub)))) \<and>
   shared_size (users (user_manager_remove 2
     (user_manager_add 1 (snd (user_manager_init 5 True example_hub))))) \<noteq>
   shared_size (users (user_manager_add 1 (snd (user_manager_init 5 True example_hub)))) \<and>
   shared_files (users (user_manager_remove 2
     (user_manager_add 1 (snd (user_manager_init 5 True example_hub))))) \<noteq>
   shared_files (users (user_manager_add 1 (snd (user_manager_init 5 True example_hub)))) \<and>
   count (users (user_manager_add 1 (snd (user_manager_init 5 True example_hub)))) = 1 \<and>
   count (users (user_manager_remove 2
     (user_manager_add 1 (snd (user_manager_init 5 True example_hub))))) = 0 \<and>
   shared_size (users (user_manager_add 1 (snd (user_manager_init 5 True example_hub)))) = 100 \<and>
   shared_size (users (user_manager_remove 2
     (user_manager_add 1 (snd (user_manager_init 5 True example_hub))))) = 80 \<and>
   shared_files (users (user_manager_add 1 (snd (user_manager_init 5 True example_hub)))) = 7 \<and>
   shared_files (users (user_manager_remove 2
     (user_manager_add 1 (snd (user_manager_init 5 True example_hub))))) = 2"
  by (simp add: run_defs)

subsection \<open>Lookups\<close>










subsection \<open>Session identifiers\<close>

lemma get_free_sids_fst:
  "fst (get_free_sids n w) = map (\<lambda>i. free_sid (users w) + of_nat i) [0..<n]"
proof (induction n arbitrary: w)
  case 0
  show ?case by simp
next
  case (Suc n)
  let ?w1 = "snd (user_manager_get_free_sid w)"
  have fs1: "free_sid (users ?w1) = free_sid (users w) + 1"
    by (simp add: user_manager_get_free_sid_def)
  have "fst (get_free_sids (Suc n) w) = free_sid (users w) # fst (get_free_sids n ?w1)"
    by (simp add: user_manager_get_free_sid_def split: prod.splits)
  also have "\<dots> = free_sid (users w) # map (\<lambda>i. free_sid (users w) + of_nat (Suc i)) [0..<n]"
    by (simp add: Suc.IH fs1 add.assoc)
  also have "\<dots> = map (\<lambda>i. free_sid (users w) + of_nat i) (0 # map Suc [0..<n])"
    by (simp add: comp_def)
  also have "0 # map Suc [0..<n] = [0..<Suc n]"
    by (simp add: map_Suc_upt upt_conv_Cons del: upt_Suc)
  finally show ?case .
qed

lemma free_sid_run_ops: "free_sid (users (run_ops ops w)) = free_sid (users w)"
proof (induction ops arbitrary: w)
  case Nil
  show ?case by simp
next
  case (Cons x xs)
  show ?case
    by (cases x) (simp_all add: Cons.IH user_manager_add_def user_manager_remove_def Let_def)
qed

lemma free_sid_init: "free_sid (users (snd (user_manager_init T True hub))) = 1"
  by (simp add: user_manager_init_def Let_def)

lemma unat_sid: "i < n \<Longrightarrow> n < 2 ^ 32 \<Longrightarrow> unat (1 + of_nat i :: sid_t) = Suc i"
proof -
  assume a: "i < n" "n < 2 ^ 32"
  have "unat (of_nat (Suc i) :: sid_t) = Suc i mod 2 ^ LENGTH(32)"
    by (rule unat_of_nat)
  also have "\<dots> = Suc i"
    using a by simp
  finally show ?thesis by simp
qed

text \<open>
  Claim C3, as the code has it. Start from the registry that \<^verbatim>\<open>user_manager_init\<close>
  sets up, register any users, and call \<^verbatim>\<open>user_manager_get_free_sid\<close> \<open>n\<close> times
  in a row, with \<open>n\<close> below \<open>2 ^ 32\<close>. The values returned are 1, 2, ..., \<open>n\<close> in this
  order, whatever the SIDs of the registered users are: distinct and strictly
  increasing from 1. \<^verbatim>\<open>free_sid\<close> is a \<^verbatim>\<open>sid_t\<close>, so the bound is needed.
\<close>

theorem get_free_sids_below_wrap:
  assumes "n < 2 ^ 32"
  shows "map unat (fst (get_free_sids n (run_ops ops (snd (user_manager_init T True hub))))) =
         [1..<Suc n]"
proof -
  have "map unat (fst (get_free_sids n (run_ops ops (snd (user_manager_init T True hub))))) =
        map (\<lambda>i. unat (1 + of_nat i :: sid_t)) [0..<n]"
    by (simp add: get_free_sids_fst free_sid_run_ops free_sid_init comp_def)
  also have "\<dots> = map Suc [0..<n]"
    using assms by (intro map_cong refl) (simp add: unat_sid)
  also have "\<dots> = [1..<Suc n]"
    by (simp add: map_Suc_upt del: upt_Suc)
  finally show ?thesis .
qed

theorem get_free_sids_below_wrap_witness:
  "(3::nat) < 2 ^ 32 \<and>
   fst (get_free_sids 3 (run_ops [Add 1, Add 2]
     (snd (user_manager_init 5 True example_hub)))) = [1, 2, 3] \<and>
   map unat (fst (get_free_sids 3 (run_ops [Add 1, Add 2]
     (snd (user_manager_init 5 True example_hub))))) = [1, 2, 3]"
  using get_free_sids_below_wrap [of 3 "[Add 1, Add 2]" 5 example_hub]
  by (simp add: run_defs user_manager_get_free_sid_def numeral_3_eq_3)

lemma get_free_sids_wrap_general:
  assumes "n = 2 ^ 32" and "free_sid (users w) = 1"
  shows "fst (get_free_sids n w) ! 0 = 1 \<and> fst (get_free_sids n w) ! (n - 1) = 0 \<and>
         \<not> sorted_wrt (<) (fst (get_free_sids n w))"
proof -
  let ?xs = "fst (get_free_sids n w)"
  have len: "length ?xs = n" by (simp add: get_free_sids_fst)
  have pos: "0 < n" "n - 1 < n" "0 < n - 1" using assms(1) by simp_all
  have x0: "?xs ! 0 = 1"
    using pos by (simp add: get_free_sids_fst assms(2))
  have "?xs ! (n - 1) = 1 + of_nat (n - 1)"
    using pos by (simp add: get_free_sids_fst assms(2))
  also have "\<dots> = (of_nat n :: sid_t)"
    using pos by (simp add: of_nat_diff)
  also have "\<dots> = 0"
    by (simp add: assms(1))
  finally have xl: "?xs ! (n - 1) = 0" .
  have "\<not> sorted_wrt (<) ?xs"
  proof
    assume "sorted_wrt (<) ?xs"
    then have "?xs ! 0 < ?xs ! (n - 1)"
      using pos len by (simp add: sorted_wrt_iff_nth_less)
    then have "(1 :: sid_t) < 0" by (simp only: x0 xl)
    then show False by simp
  qed
  then show ?thesis using x0 xl by simp
qed

text \<open>
  Claim C3, as it is stated, fails. Of \<open>2 ^ 32\<close> calls in a row on the registry that
  \<^verbatim>\<open>user_manager_init\<close> sets up, the first returns 1 and the last returns 0: the
  counter has wrapped around, and the values are not strictly increasing.
\<close>

theorem get_free_sids_wraps:
  "fst (get_free_sids (2 ^ 32) (snd (user_manager_init 5 True example_hub))) ! 0 = 1 \<and>
   fst (get_free_sids (2 ^ 32) (snd (user_manager_init 5 True example_hub))) ! (2 ^ 32 - 1) = 0 \<and>
   \<not> sorted_wrt (<) (fst (get_free_sids (2 ^ 32) (snd (user_manager_init 5 True example_hub))))"
  by (rule get_free_sids_wrap_general [OF refl free_sid_init])

subsection \<open>The statistics sampler\<close>

lemma int_to_size_t_in_range:
  assumes "- (2 ^ 31) \<le> i" and "i < 2 ^ 31"
  shows "int_to_size_t (word_of_int i) = word_of_int i"
proof -
  have "sint (word_of_int i :: c_int) = signed_take_bit (LENGTH(32) - 1) i"
    by (rule sint_sbintrunc')
  also have "\<dots> = i"
    using assms by (simp add: signed_take_bit_int_eq_self)
  finally show ?thesis
    by (simp add: int_to_size_t_def)
qed

lemma int_to_size_t_eq_0: "int_to_size_t i = 0 \<longleftrightarrow> i = 0"
proof
  assume "int_to_size_t i = 0"
  then have "(2 :: int) ^ LENGTH(64) dvd sint i"
    by (simp only: int_to_size_t_def word_of_int_eq_0_iff)
  then obtain k where k: "sint i = 2 ^ 64 * k"
    by (auto simp: dvd_def)
  have b: "- (2 ^ 31) \<le> sint i" "sint i < 2 ^ 31"
    using sint_ge [of i] sint_lt [of i] by simp_all
  have "k = 0"
  proof (rule ccontr)
    assume "k \<noteq> 0"
    then consider "1 \<le> k" | "k \<le> - 1" by linarith
    then show False
    proof cases
      case 1
      then have "(2 :: int) ^ 64 * 1 \<le> 2 ^ 64 * k" by (intro mult_left_mono) simp_all
      then show False using b k by simp
    next
      case 2
      then have "(2 :: int) ^ 64 * k \<le> 2 ^ 64 * (- 1)" by (intro mult_left_mono) simp_all
      then show False using b k by simp
    qed
  qed
  then have "sint i = 0" using k by simp
  then show "i = 0"
    by (metis sint_0 signed_word_eqI)
next
  assume "i = 0"
  then show "int_to_size_t i = 0"
    by (simp add: int_to_size_t_def)
qed

text \<open>
  Claim C6. A call of \<^verbatim>\<open>user_manager_update_stats\<close> in which \<^verbatim>\<open>factor\<close> is not
  zero (so that the division is defined) returns, leaves \<^verbatim>\<open>net_rx_peak\<close> as it was,
  and leaves in \<^verbatim>\<open>net_tx_peak\<close> the maximum of the new receive rate and the old
  receive peak: the second assignment to \<^verbatim>\<open>net_tx_peak\<close> overwrites the first. The
  new receive rate is the interval's receive counter divided by \<^verbatim>\<open>factor\<close>, which is
  \<^verbatim>\<open>TIMEOUT_STATS\<close> itself when that is in the range of \<^verbatim>\<open>int\<close>.
\<close>

theorem update_stats_rx_peak_unchanged:
  assumes "(word_of_int TIMEOUT_STATS :: c_int) \<noteq> 0"
  shows "\<exists>hub1. user_manager_update_stats TIMEOUT_STATS hub = Some hub1 \<and>
           net_rx_peak (stats hub1) = net_rx_peak (stats hub) \<and>
           net_rx (stats hub1) =
             rx (net_stats_intermediate hub) div int_to_size_t (word_of_int TIMEOUT_STATS) \<and>
           int_to_size_t (word_of_int TIMEOUT_STATS) \<noteq> 0 \<and>
           (- (2 ^ 31) \<le> TIMEOUT_STATS \<and> TIMEOUT_STATS < 2 ^ 31 \<longrightarrow>
              net_rx (stats hub1) =
                rx (net_stats_intermediate hub) div word_of_int TIMEOUT_STATS) \<and>
           net_tx_peak (stats hub1) = max (net_rx (stats hub1)) (net_rx_peak (stats hub))"
  using assms
  by (simp add: user_manager_update_stats_def net_stats_get_def net_stats_reset_def Let_def
        MAX_macro_max int_to_size_t_in_range int_to_size_t_eq_0)

lemma int_to_size_t_5: "int_to_size_t 5 = 5"
  using int_to_size_t_in_range [of 5] by simp

theorem update_stats_rx_peak_unchanged_witness:
  "(word_of_int 5 :: c_int) \<noteq> 0 \<and> - (2 ^ 31) \<le> (5 :: int) \<and> (5 :: int) < 2 ^ 31 \<and>
   (\<exists>hub1. user_manager_update_stats 5
        (example_hub\<lparr>stats := (stats example_hub)\<lparr>net_tx_peak := 2000, net_rx_peak := 100\<rparr>\<rparr>) =
        Some hub1 \<and>
      net_rx (stats hub1) = 204 \<and> net_rx_peak (stats hub1) = 100 \<and>
      net_tx_peak (stats hub1) = 204)"
  using update_stats_rx_peak_unchanged [of 5
      "example_hub\<lparr>stats := (stats example_hub)\<lparr>net_tx_peak := 2000, net_rx_peak := 100\<rparr>\<rparr>"]
  by (simp add: run_defs user_manager_update_stats_def net_stats_get_def net_stats_reset_def
        int_to_size_t_5)

text \<open>
  A macro value that narrows to the \<^verbatim>\<open>int\<close> 0, such as \<open>2 ^ 32\<close>, makes the
  division undefined.
\<close>

lemma update_stats_factor_zero: "user_manager_update_stats 4294967296 hub = None"
  by (simp add: user_manager_update_stats_def net_stats_get_def)

text \<open>
  Claim C2 says that both peaks are raised to the new rates. On the example hub (interval
  of 5 seconds, 5120 bytes sent and 1024 received in the interval, both peaks at 0) the
  rates are 1024 and 204 as claimed, and the totals are the cumulative counters, but
  \<^verbatim>\<open>net_tx_peak\<close> ends at 204, not 1024, and \<^verbatim>\<open>net_rx_peak\<close> stays 0, not 204.
\<close>

theorem update_stats_peaks_example:
  "map_option stats (user_manager_update_stats 5 example_hub) =
     Some \<lparr>net_tx = 1024, net_rx = 204, net_tx_peak = 204, net_rx_peak = 0,
           net_tx_total = 5120, net_rx_total = 1024\<rparr>"
  by (simp add: run_defs user_manager_update_stats_def net_stats_get_def net_stats_reset_def
        int_to_size_t_5)

text \<open>
  The rest of what claim C2 says holds: the sampler resets the counters of the interval,
  so a second call right after the first reports the rate 0 in both directions.
\<close>

lemma update_stats_twice:
  assumes "user_manager_update_stats T hub = Some hub1"
  shows "\<exists>hub2. user_manager_update_stats T hub1 = Some hub2 \<and>
           net_tx (stats hub2) = 0 \<and> net_rx (stats hub2) = 0"
  using assms
  by (auto simp add: user_manager_update_stats_def net_stats_get_def net_stats_reset_def
        Let_def split: if_splits)

subsection \<open>The quit message\<close>

text \<open>
  Claim C7. \<^verbatim>\<open>send_quit_message\<close> builds one message whose first argument is the
  string of the leaving user's SID, followed by the disconnect flag exactly when the
  user's \<^verbatim>\<open>quit_reason\<close> is \<^verbatim>\<open>quit_banned\<close> or \<^verbatim>\<open>quit_kicked\<close>; it calls
  \<^verbatim>\<open>route_to_all\<close> once with this message and then \<^verbatim>\<open>adc_msg_free\<close> on it, and
  changes nothing else.
\<close>

theorem send_quit_message_payload:
  "(let forced = (quit_reason (mem w leaving) = quit_banned \<or>
                  quit_reason (mem w leaving) = quit_kicked);
        command = \<lparr>cmd = ADC_CMD_IQUI,
                   arguments = sid_to_string (id_sid (mem w leaving)) #
                               (if forced then [ADC_QUI_FLAG_DISCONNECT] else [])\<rparr>
    in send_quit_message ADC_CMD_IQUI ADC_QUI_FLAG_DISCONNECT sid_to_string leaving w =
         w\<lparr>calls := calls w @ [call_route_to_all command, call_adc_msg_free command]\<rparr> \<and>
       hd (arguments command) = sid_to_string (id_sid (mem w leaving)) \<and>
       (ADC_QUI_FLAG_DISCONNECT \<in> set (tl (arguments command))) = forced)"
  by (simp add: send_quit_message_def adc_msg_construct_def adc_msg_add_argument_def
        route_to_all_def adc_msg_free_def Let_def)

theorem send_quit_message_payload_witness:
  "calls (send_quit_message 7 ''DI1'' (\<lambda>sid. ''AAAB'') 1 example_hub) =
     [call_route_to_all \<lparr>cmd = 7, arguments = [''AAAB'', ''DI1'']\<rparr>,
      call_adc_msg_free \<lparr>cmd = 7, arguments = [''AAAB'', ''DI1'']\<rparr>] \<and>
   calls (send_quit_message 7 ''DI1'' (\<lambda>sid. ''AAAB'') 2 example_hub) =
     [call_route_to_all \<lparr>cmd = 7, arguments = [''AAAB'', ''DI1'']\<rparr>,
      call_adc_msg_free \<lparr>cmd = 7, arguments = [''AAAB'', ''DI1'']\<rparr>] \<and>
   calls (send_quit_message 7 ''DI1'' (\<lambda>sid. ''AAAB'') 3 example_hub) =
     [call_route_to_all \<lparr>cmd = 7, arguments = [''AAAB'']\<rparr>,
      call_adc_msg_free \<lparr>cmd = 7, arguments = [''AAAB'']\<rparr>]"
  using send_quit_message_payload [of example_hub 1 7 "\<lambda>sid. ''AAAB''" "''DI1''"]
    send_quit_message_payload [of example_hub 2 7 "\<lambda>sid. ''AAAB''" "''DI1''"]
    send_quit_message_payload [of example_hub 3 7 "\<lambda>sid. ''AAAB''" "''DI1''"]
  by (simp add: run_defs)

subsection \<open>Shutdown\<close>

lemma clear_callback_Some:
  "clear_user_list_callback (Some p) w =
     w\<lparr>mem := (mem w)(p := (mem w p)\<lparr>credentials := cred_none\<rparr>),
       calls := calls w @ [call_user_destroy p ((mem w p)\<lparr>credentials := cred_none\<rparr>)]\<rparr>"
  by (simp add: clear_user_list_callback_def user_destroy_def)

lemma list_clear_loop_callback:
  "list_clear_loop clear_user_list_callback l w =
     w\<lparr>mem := (\<lambda>q. if q \<in> set l then (mem w q)\<lparr>credentials := cred_none\<rparr> else mem w q),
       calls := calls w @
         map (\<lambda>p. call_user_destroy p ((mem w p)\<lparr>credentials := cred_none\<rparr>)) l\<rparr>"
proof (induction l arbitrary: w)
  case Nil
  show ?case by simp
next
  case (Cons p rest)
  show ?case
    by (simp add: Cons.IH clear_callback_Some fun_eq_iff)
qed

lemma destroyed_append: "destroyed (cs @ ds) = destroyed cs @ destroyed ds"
  by (induction cs rule: destroyed.induct) simp_all

lemma destroyed_map: "destroyed (map (\<lambda>p. call_user_destroy p (f p)) l) = l"
  by (induction l) simp_all

text \<open>
  Claim C8. The calls \<^verbatim>\<open>user_manager_shutdown\<close> makes are, in this order:
  \<^verbatim>\<open>event_del\<close> on the timer; one \<^verbatim>\<open>user_destroy\<close> for every entry of the list,
  first to last, on a user whose \<^verbatim>\<open>credentials\<close> are already \<^verbatim>\<open>cred_none\<close>;
  \<^verbatim>\<open>list_destroy\<close>; \<^verbatim>\<open>hub_free\<close>. The users destroyed are the entries of the
  list, each entry once, and the list is empty afterwards.
\<close>

theorem shutdown_destroys_each:
  "calls (user_manager_shutdown hub) =
     calls hub @ [call_event_del] @
     map (\<lambda>p. call_user_destroy p ((mem hub p)\<lparr>credentials := cred_none\<rparr>))
       (list_users (users hub)) @
     [call_list_destroy, call_hub_free] \<and>
   destroyed (calls (user_manager_shutdown hub)) =
     destroyed (calls hub) @ list_users (users hub) \<and>
   list_users (users (user_manager_shutdown hub)) = []"
  by (simp add: user_manager_shutdown_def event_del_def list_clear_def list_destroy_def
        hub_free_def list_clear_loop_callback Let_def destroyed_append destroyed_map)

theorem shutdown_destroys_each_witness:
  "calls (user_manager_shutdown (run_ops [Add 1, Add 2, Add 3]
     (snd (user_manager_init 5 True example_hub)))) =
     [call_evtimer_add 5, call_event_del,
      call_user_destroy 1 ((example_user 1)\<lparr>credentials := cred_none\<rparr>),
      call_user_destroy 2 ((example_user 2)\<lparr>credentials := cred_none\<rparr>),
      call_user_destroy 3 ((example_user 3)\<lparr>credentials := cred_none\<rparr>),
      call_list_destroy, call_hub_free] \<and>
   destroyed (calls (user_manager_shutdown (run_ops [Add 1, Add 2, Add 3]
     (snd (user_manager_init 5 True example_hub))))) = [1, 2, 3] \<and>
   list_users (users (user_manager_shutdown (run_ops [Add 1, Add 2, Add 3]
     (snd (user_manager_init 5 True example_hub))))) = []"
  using shutdown_destroys_each [of "run_ops [Add 1, Add 2, Add 3]
      (snd (user_manager_init 5 True example_hub))"]
  by (simp add: user_manager_init_def user_manager_zero_def user_manager_add_def list_append_def
        example_hub_def Let_def)

subsection \<open>Sending the user list\<close>

lemma route_to_user_effect:
  "route_to_user rt target msg w = (ret, w1) \<Longrightarrow>
   calls w1 = calls w @ [call_route_to_user target msg ret] \<and>
   users w1 = users w \<and>
   (\<forall>q. logged_in (mem w1 q) = logged_in (mem w q) \<and> info (mem w1 q) = info (mem w q) \<and>
        flags (mem w1 q) = flags (mem w q))"
proof -
  assume a: "route_to_user rt target msg w = (ret, w1)"
  obtain r q where rq: "rt (calls w) (mem w target) msg = (r, q)"
    by (cases "rt (calls w) (mem w target) msg")
  then have "ret = r"
    and "w1 = w\<lparr>mem := (mem w)(target := (mem w target)\<lparr>send_queue_size := q\<rparr>),
                  calls := calls w @ [call_route_to_user target msg r]\<rparr>"
    using a by (auto simp add: route_to_user_def)
  then show ?thesis by simp
qed

lemma loop_post_skip:
  "\<not> logged_in (mem w1 user) \<Longrightarrow> loop_post target rest ret0 w1 ret new \<Longrightarrow>
   loop_post target (user # rest) ret0 w1 ret new"
  by (simp add: loop_post_def)

lemma loop_post_fail:
  "logged_in (mem w1 user) \<Longrightarrow>
   loop_post target (user # rest) ret0 w1 0 [call_route_to_user target (info (mem w1 user)) 0]"
  by (simp add: loop_post_def)

lemma loop_post_step:
  assumes li: "logged_in (mem w1 user)" and nz: "ret1 \<noteq> 0"
    and fr: "\<forall>q. logged_in (mem w1' q) = logged_in (mem w1 q) \<and> info (mem w1' q) = info (mem w1 q)"
    and post: "loop_post target rest ret1 w1' ret new"
  shows "loop_post target (user # rest) ret0 w1 ret
           (call_route_to_user target (info (mem w1 user)) ret1 # new)"
proof -
  let ?cand = "filter (\<lambda>p. logged_in (mem w1 p)) rest"
  have cand: "filter (\<lambda>p. logged_in (mem w1' p)) rest = ?cand"
    using fr by simp
  have inf: "map (\<lambda>p. (target, info (mem w1' p))) ?cand = map (\<lambda>p. (target, info (mem w1 p))) ?cand"
    using fr by simp
  from post have p1: "length (routed new) = length new" "length (returned new) = length new"
    and p0: "length new \<le> length ?cand"
    and p2: "routed new = take (length new) (map (\<lambda>p. (target, info (mem w1 p))) ?cand)"
    and p3: "\<forall>r \<in> set (butlast (returned new)). r \<noteq> 0"
    and p4: "0 \<in> set (returned new) \<longrightarrow> ret = 0"
    and p5: "0 \<notin> set (returned new) \<longrightarrow> length new = length ?cand \<and> ret = last (ret1 # returned new)"
    by (simp_all add: loop_post_def Let_def cand inf)
  have b: "\<forall>r \<in> set (butlast (ret1 # returned new)). r \<noteq> 0"
    using p3 nz by simp
  show ?thesis
    using li nz p0 p1 p2 b p4 p5
    by (simp add: loop_post_def Let_def)
qed

lemma send_user_list_loop_post:
  "send_user_list_loop rt target l ret0 w1 = (ret, w2) \<Longrightarrow>
   \<exists>new. calls w2 = calls w1 @ new \<and> loop_post target l ret0 w1 ret new"
proof (induction l arbitrary: ret0 w1)
  case Nil
  then show ?case by (simp add: loop_post_def)
next
  case (Cons user rest)
  show ?case
  proof (cases "logged_in (mem w1 user)")
    case False
    then have "send_user_list_loop rt target rest ret0 w1 = (ret, w2)"
      using Cons.prems by (simp add: user_is_logged_in_def)
    then obtain new where "calls w2 = calls w1 @ new" "loop_post target rest ret0 w1 ret new"
      using Cons.IH by blast
    then show ?thesis using False loop_post_skip by blast
  next
    case True
    obtain ret1 w1' where r: "route_to_user rt target (info (mem w1 user)) w1 = (ret1, w1')"
      by (cases "route_to_user rt target (info (mem w1 user)) w1")
    note eff = route_to_user_effect [OF r]
    show ?thesis
    proof (cases "ret1 = 0")
      case z: True
      then have "ret = 0" "w2 = w1'"
        using Cons.prems True r by (simp_all add: user_is_logged_in_def)
      then show ?thesis
        using eff z loop_post_fail [OF True] by auto
    next
      case nz: False
      then have "send_user_list_loop rt target rest ret1 w1' = (ret, w2)"
        using Cons.prems True r by (simp add: user_is_logged_in_def)
      then obtain new where n: "calls w2 = calls w1' @ new" "loop_post target rest ret1 w1' ret new"
        using Cons.IH by blast
      have "loop_post target (user # rest) ret0 w1 ret
              (call_route_to_user target (info (mem w1 user)) ret1 # new)"
        using True nz _ n(2) by (rule loop_post_step) (use eff in simp)
      then show ?thesis using n(1) eff by auto
    qed
  qed
qed

lemma send_user_list_loop_frame:
  "send_user_list_loop rt target l ret0 w1 = (ret, w2) \<Longrightarrow>
   users w2 = users w1 \<and>
   (\<forall>q. logged_in (mem w2 q) = logged_in (mem w1 q) \<and> info (mem w2 q) = info (mem w1 q) \<and>
        flags (mem w2 q) = flags (mem w1 q))"
proof (induction l arbitrary: ret0 w1)
  case Nil
  then show ?case by simp
next
  case (Cons user rest)
  show ?case
  proof (cases "logged_in (mem w1 user)")
    case False
    then show ?thesis using Cons by (simp add: user_is_logged_in_def)
  next
    case True
    obtain ret1 w1' where r: "route_to_user rt target (info (mem w1 user)) w1 = (ret1, w1')"
      by (cases "route_to_user rt target (info (mem w1 user)) w1")
    note eff = route_to_user_effect [OF r]
    show ?thesis
    proof (cases "ret1 = 0")
      case True
      then have "w2 = w1'"
        using Cons.prems \<open>logged_in (mem w1 user)\<close> r by (simp add: user_is_logged_in_def)
      then show ?thesis using eff by simp
    next
      case False
      then have "send_user_list_loop rt target rest ret1 w1' = (ret, w2)"
        using Cons.prems True r by (simp add: user_is_logged_in_def)
      then show ?thesis using Cons.IH eff by metis
    qed
  qed
qed

lemma send_user_list_unfold:
  assumes "send_user_list rt target w = (ret, w')"
  obtains w2 where
    "send_user_list_loop rt target (list_users (users w)) 1
       (user_flag_set target flag_user_list w) = (ret, w2)"
    and "w' = (if send_queue_size (mem w2 target) = 0
               then user_flag_unset target flag_user_list w2 else w2)"
proof -
  obtain r2 w2 where l: "send_user_list_loop rt target (list_users (users w)) 1
       (user_flag_set target flag_user_list w) = (r2, w2)"
    by (cases "send_user_list_loop rt target (list_users (users w)) 1
       (user_flag_set target flag_user_list w)")
  have "users (user_flag_set target flag_user_list w) = users w"
    by (simp add: user_flag_set_def)
  then have "ret = r2 \<and> w' = (if send_queue_size (mem w2 target) = 0
               then user_flag_unset target flag_user_list w2 else w2)"
    using assms l by (auto simp add: send_user_list_def Let_def split: if_splits)
  then show ?thesis using l that by blast
qed

text \<open>
  Claim C5. Let \<open>cand\<close> be the registered users that are logged in, in the order of
  the list, and \<open>new\<close> the calls \<^verbatim>\<open>send_user_list\<close> adds. Every new call is a
  \<^verbatim>\<open>route_to_user\<close> call to the target; the calls carry the \<^verbatim>\<open>info\<close> of the
  users of \<open>cand\<close>, one call per user, in order, from the first user on; no call but
  the last has returned 0; if a call returned 0 the function returns 0; if none did,
  every user of \<open>cand\<close> has had its call and the function returns what the last call
  returned, or 1 when there was no call. With no logged-in user there is no call and the
  result is 1.
\<close>

theorem send_user_list_deliveries:
  assumes "send_user_list rt target w = (ret, w')"
  shows "(let cand = filter (\<lambda>p. user_is_logged_in (mem w p)) (list_users (users w));
              new = drop (length (calls w)) (calls w')
          in calls w' = calls w @ new \<and>
             length (routed new) = length new \<and>
             length new \<le> length cand \<and>
             routed new = take (length new) (map (\<lambda>p. (target, info (mem w p))) cand) \<and>
             (\<forall>r \<in> set (butlast (returned new)). r \<noteq> 0) \<and>
             (0 \<in> set (returned new) \<longrightarrow> ret = 0) \<and>
             (0 \<notin> set (returned new) \<longrightarrow>
                length new = length cand \<and> ret = last (1 # returned new)) \<and>
             (cand = [] \<longrightarrow> new = [] \<and> ret = 1))"
proof -
  let ?w1 = "user_flag_set target flag_user_list w"
  obtain w2 where l: "send_user_list_loop rt target (list_users (users w)) 1 ?w1 = (ret, w2)"
    and w': "w' = (if send_queue_size (mem w2 target) = 0
               then user_flag_unset target flag_user_list w2 else w2)"
    using assms by (rule send_user_list_unfold)
  obtain new where n: "calls w2 = calls ?w1 @ new"
    and post: "loop_post target (list_users (users w)) 1 ?w1 ret new"
    using send_user_list_loop_post [OF l] by blast
  have c: "calls w' = calls w @ new"
    using n w' by (simp add: user_flag_set_def user_flag_unset_def)
  have li: "logged_in (mem ?w1 p) = logged_in (mem w p)" for p
    by (simp add: user_flag_set_def)
  have inf: "info (mem ?w1 p) = info (mem w p)" for p
    by (simp add: user_flag_set_def)
  have d: "drop (length (calls w)) (calls w') = new"
    by (simp add: c)
  show ?thesis
    using post unfolding Let_def d
    by (auto simp add: loop_post_def Let_def li inf c user_is_logged_in_def)
qed

lemmas send_defs = send_user_list_def route_to_user_def user_flag_set_def user_flag_unset_def
  user_is_logged_in_def

theorem send_user_list_deliveries_witness:
  "send_user_list (\<lambda>cs u m. (1, 10)) 1
      (run_ops [Add 1, Add 2, Add 3] (snd (user_manager_init 5 True example_hub))) =
     (1, snd (send_user_list (\<lambda>cs u m. (1, 10)) 1
      (run_ops [Add 1, Add 2, Add 3] (snd (user_manager_init 5 True example_hub))))) \<and>
   calls (snd (send_user_list (\<lambda>cs u m. (1, 10)) 1
      (run_ops [Add 1, Add 2, Add 3] (snd (user_manager_init 5 True example_hub))))) =
     [call_evtimer_add 5,
      call_route_to_user 1 \<lparr>cmd = 0, arguments = [''ann'']\<rparr> 1,
      call_route_to_user 1 \<lparr>cmd = 0, arguments = [''cyd'']\<rparr> 1] \<and>
   fst (send_user_list (\<lambda>cs u m. if send_queue_size u = 0 then (1, 10) else (0, 10)) 1
      (run_ops [Add 1, Add 2, Add 3, Add 4] (snd (user_manager_init 5 True example_hub)))) = 0 \<and>
   calls (snd (send_user_list (\<lambda>cs u m. if send_queue_size u = 0 then (1, 10) else (0, 10)) 1
      (run_ops [Add 1, Add 2, Add 3, Add 4] (snd (user_manager_init 5 True example_hub))))) =
     [call_evtimer_add 5,
      call_route_to_user 1 \<lparr>cmd = 0, arguments = [''ann'']\<rparr> 1,
      call_route_to_user 1 \<lparr>cmd = 0, arguments = [''cyd'']\<rparr> 0] \<and>
   fst (send_user_list (\<lambda>cs u m. (0, 10)) 1
      (run_ops [Add 2] (snd (user_manager_init 5 True example_hub)))) = 1 \<and>
   calls (snd (send_user_list (\<lambda>cs u m. (0, 10)) 1
      (run_ops [Add 2] (snd (user_manager_init 5 True example_hub))))) =
     [call_evtimer_add 5]"
  using send_user_list_deliveries [of "\<lambda>cs u m. (1, 10)" 1
      "run_ops [Add 1, Add 2, Add 3] (snd (user_manager_init 5 True example_hub))" 1
      "snd (send_user_list (\<lambda>cs u m. (1, 10)) 1
         (run_ops [Add 1, Add 2, Add 3] (snd (user_manager_init 5 True example_hub))))"]
    send_user_list_deliveries
      [of "\<lambda>cs u m. if send_queue_size u = 0 then (1, 10) else (0, 10)" 1
      "run_ops [Add 1, Add 2, Add 3, Add 4] (snd (user_manager_init 5 True example_hub))" 0
      "snd (send_user_list (\<lambda>cs u m. if send_queue_size u = 0 then (1, 10) else (0, 10)) 1
         (run_ops [Add 1, Add 2, Add 3, Add 4] (snd (user_manager_init 5 True example_hub))))"]
    send_user_list_deliveries [of "\<lambda>cs u m. (0, 10)" 1
      "run_ops [Add 2] (snd (user_manager_init 5 True example_hub))" 1
      "snd (send_user_list (\<lambda>cs u m. (0, 10)) 1
         (run_ops [Add 2] (snd (user_manager_init 5 True example_hub))))"]
  by (simp add: run_defs send_defs)

text \<open>
  Claim C10. \<^verbatim>\<open>send_user_list\<close> sets \<^verbatim>\<open>flag_user_list\<close> on the target before
  the loop, and the flag is still set when the loop ends, however it ends. The state
  returned is the one after the loop, with the flag cleared exactly when the target's
  \<^verbatim>\<open>send_queue_size\<close> is zero then: at the end the flag is set if and only if the
  queue size is not zero. The other flags of the target are as before.
\<close>

theorem send_user_list_flag:
  assumes "send_user_list rt target w = (ret, w')"
  shows "(flag_user_list \<in> flags (mem w' target)) = (send_queue_size (mem w' target) \<noteq> 0) \<and>
         flags (mem w' target) - {flag_user_list} = flags (mem w target) - {flag_user_list} \<and>
         (case send_user_list_loop rt target (list_users (users w)) 1
                 (user_flag_set target flag_user_list w) of
            (ret2, w2) \<Rightarrow>
              flag_user_list \<in> flags (mem (user_flag_set target flag_user_list w) target) \<and>
              flag_user_list \<in> flags (mem w2 target) \<and>
              w' = (if send_queue_size (mem w2 target) = 0
                    then user_flag_unset target flag_user_list w2 else w2))"
proof -
  let ?w1 = "user_flag_set target flag_user_list w"
  obtain w2 where l: "send_user_list_loop rt target (list_users (users w)) 1 ?w1 = (ret, w2)"
    and w': "w' = (if send_queue_size (mem w2 target) = 0
               then user_flag_unset target flag_user_list w2 else w2)"
    using assms by (rule send_user_list_unfold)
  have f1: "flags (mem ?w1 target) = insert flag_user_list (flags (mem w target))"
    by (simp add: user_flag_set_def)
  have f2: "flags (mem w2 target) = insert flag_user_list (flags (mem w target))"
    using send_user_list_loop_frame [OF l] f1 by simp
  show ?thesis
    using l w' f1 f2 by (auto simp add: user_flag_unset_def)
qed

theorem send_user_list_flag_witness:
  "send_queue_size (mem (snd (send_user_list (\<lambda>cs u m. (1, 10)) 1
      (run_ops [Add 1, Add 2, Add 3] (snd (user_manager_init 5 True example_hub))))) 1) = 10 \<and>
   flag_user_list \<in> flags (mem (snd (send_user_list (\<lambda>cs u m. (1, 10)) 1
      (run_ops [Add 1, Add 2, Add 3] (snd (user_manager_init 5 True example_hub))))) 1) \<and>
   send_queue_size (mem (snd (send_user_list (\<lambda>cs u m. (0, 0)) 1
      (run_ops [Add 1, Add 2, Add 3] (snd (user_manager_init 5 True example_hub))))) 1) = 0 \<and>
   flag_user_list \<notin> flags (mem (snd (send_user_list (\<lambda>cs u m. (0, 0)) 1
      (run_ops [Add 1, Add 2, Add 3] (snd (user_manager_init 5 True example_hub))))) 1)"
  using send_user_list_flag [of "\<lambda>cs u m. (1, 10)" 1
      "run_ops [Add 1, Add 2, Add 3] (snd (user_manager_init 5 True example_hub))"
      "fst (send_user_list (\<lambda>cs u m. (1, 10)) 1
         (run_ops [Add 1, Add 2, Add 3] (snd (user_manager_init 5 True example_hub))))"
      "snd (send_user_list (\<lambda>cs u m. (1, 10)) 1
         (run_ops [Add 1, Add 2, Add 3] (snd (user_manager_init 5 True example_hub))))"]
    send_user_list_flag [of "\<lambda>cs u m. (0, 0)" 1
      "run_ops [Add 1, Add 2, Add 3] (snd (user_manager_init 5 True example_hub))"
      "fst (send_user_list (\<lambda>cs u m. (0, 0)) 1
         (run_ops [Add 1, Add 2, Add 3] (snd (user_manager_init 5 True example_hub))))"
      "snd (send_user_list (\<lambda>cs u m. (0, 0)) 1
         (run_ops [Add 1, Add 2, Add 3] (snd (user_manager_init 5 True example_hub))))"]
  by (simp add: run_defs send_defs)

end
